theory Spec2Isabelle
  imports Complex_Main "HOL-Library.Word"
begin

unbundle bit_operations_syntax

section \<open>JavaScript strings\<close>

text \<open>
  A JavaScript string is a sequence of 16-bit code units. \<open>js\<close> writes an ASCII
  literal of the source as such a sequence.
\<close>

type_synonym jschar = "16 word"
type_synonym jsstring = "jschar list"

definition js :: "string \<Rightarrow> jsstring" where
  "js s = map (\<lambda>c. of_nat (of_char c)) s"

text \<open>
  \<open>String.prototype.trim\<close> removes the WhiteSpace and LineTerminator code points
  of ECMAScript from both ends: TAB, LF, VT, FF, CR, SPACE, NBSP, U+1680,
  U+2000 to U+200A, U+2028, U+2029, U+202F, U+205F, U+3000 and U+FEFF.
\<close>

definition is_trim_space :: "jschar \<Rightarrow> bool" where
  "is_trim_space c \<longleftrightarrow>
     c \<in> {0x09, 0x0A, 0x0B, 0x0C, 0x0D, 0x20, 0xA0, 0x1680, 0x2028, 0x2029,
          0x202F, 0x205F, 0x3000, 0xFEFF}
     \<or> (0x2000 \<le> c \<and> c \<le> 0x200A)"

definition trim :: "jsstring \<Rightarrow> jsstring" where
  "trim s = rev (dropWhile is_trim_space (rev (dropWhile is_trim_space s)))"

section \<open>The tasks slice\<close>

text \<open>
  A task is the object \<open>{ id, description, isDone }\<close> built by \<open>prepare\<close>; the
  slice state is \<open>{ items, filter }\<close>. The fields \<open>id\<close> and \<open>filter\<close> carry a
  prime, since HOL has constants of these names.
\<close>

record task =
  id' :: jsstring
  description :: jsstring
  isDone :: bool

record state =
  items :: "task list"
  filter' :: jsstring

datatype action =
    AddTask task
  | ToggleDone jsstring
  | EditTask jsstring jsstring
  | SetFilter jsstring
  | ClearAll

text \<open>
  \<open>prepare\<close> of \<open>addTask\<close>. The call \<open>nanoid()\<close> draws a random identifier; the
  value it returned is the first argument.
\<close>

definition prepare :: "jsstring \<Rightarrow> jsstring \<Rightarrow> task" where
  "prepare nanoid descr = \<lparr>id' = nanoid, description = trim descr, isDone = False\<rparr>"

text \<open>
  \<open>state.items.find(p)\<close> returns the first element satisfying \<open>p\<close>, or
  \<open>undefined\<close>. The element is an object that the reducer then assigns to, so the
  model returns the position of that element in the array.
\<close>

fun find_first :: "('a \<Rightarrow> bool) \<Rightarrow> 'a list \<Rightarrow> nat option" where
  "find_first p [] = None"
| "find_first p (x # xs) = (if p x then Some 0 else map_option Suc (find_first p xs))"

definition addTask_reducer :: "state \<Rightarrow> task \<Rightarrow> state" where
  "addTask_reducer st payload = st\<lparr>items := payload # items st\<rparr>"

definition toggleDone_reducer :: "state \<Rightarrow> jsstring \<Rightarrow> state" where
  "toggleDone_reducer st payload =
     (case find_first (\<lambda>x. id' x = payload) (items st) of
        None \<Rightarrow> st
      | Some k \<Rightarrow>
          st\<lparr>items := (items st)[k := (items st ! k)\<lparr>isDone := \<not> isDone (items st ! k)\<rparr>]\<rparr>)"

definition editTask_reducer :: "state \<Rightarrow> jsstring \<Rightarrow> jsstring \<Rightarrow> state" where
  "editTask_reducer st ident descr =
     (case find_first (\<lambda>x. id' x = ident) (items st) of
        None \<Rightarrow> st
      | Some k \<Rightarrow>
          if trim descr \<noteq> []
          then st\<lparr>items := (items st)[k := (items st ! k)\<lparr>description := trim descr\<rparr>]\<rparr>
          else st)"

definition setFilter_reducer :: "state \<Rightarrow> jsstring \<Rightarrow> state" where
  "setFilter_reducer st payload = st\<lparr>filter' := payload\<rparr>"

definition clearAll_reducer :: "state \<Rightarrow> state" where
  "clearAll_reducer st = st\<lparr>items := []\<rparr>"

fun tasksSlice_reducer :: "state \<Rightarrow> action \<Rightarrow> state" where
  "tasksSlice_reducer st (AddTask payload) = addTask_reducer st payload"
| "tasksSlice_reducer st (ToggleDone payload) = toggleDone_reducer st payload"
| "tasksSlice_reducer st (EditTask ident descr) = editTask_reducer st ident descr"
| "tasksSlice_reducer st (SetFilter payload) = setFilter_reducer st payload"
| "tasksSlice_reducer st ClearAll = clearAll_reducer st"

text \<open>The action creators of \<open>tasksSlice.actions\<close>, and \<open>dispatch\<close> of the store.\<close>

definition addTask :: "jsstring \<Rightarrow> jsstring \<Rightarrow> action" where
  "addTask nanoid descr = AddTask (prepare nanoid descr)"

definition toggleDone :: "jsstring \<Rightarrow> action" where
  "toggleDone ident = ToggleDone ident"

definition editTask :: "jsstring \<Rightarrow> jsstring \<Rightarrow> action" where
  "editTask ident descr = EditTask ident descr"

definition setFilter :: "jsstring \<Rightarrow> action" where
  "setFilter v = SetFilter v"

definition clearAll :: action where
  "clearAll = ClearAll"

definition dispatch :: "action \<Rightarrow> state \<Rightarrow> state" where
  "dispatch a st = tasksSlice_reducer st a"

section \<open>Components\<close>

text \<open>
  \<open>onSubmit\<close> of the \<open>AddTask\<close> form. The component holds the text of the input
  field; the handler returns without dispatching when the trimmed text is empty,
  and otherwise dispatches \<open>addTask(text)\<close> and clears the field.
\<close>

definition onSubmit :: "jsstring \<Rightarrow> state \<times> jsstring \<Rightarrow> state \<times> jsstring" where
  "onSubmit nanoid \<sigma> =
     (case \<sigma> of (st, text) \<Rightarrow>
        if length (trim text) = 0 then (st, text)
        else (dispatch (addTask nanoid text) st, []))"

text \<open>The memoised list \<open>filtered\<close> of \<open>ListTask\<close>.\<close>

definition filtered :: "task list \<Rightarrow> jsstring \<Rightarrow> task list" where
  "filtered its f =
     (if f = js ''done'' then filter (\<lambda>t. isDone t) its
      else if f = js ''not'' then filter (\<lambda>t. \<not> isDone t) its
      else its)"

text \<open>
  The invariant of the data model: no two items share an id, and the filter is
  one of the three values of the comment on \<open>filter\<close>.
\<close>

definition filter_values :: "jsstring set" where
  "filter_values = {js ''all'', js ''done'', js ''not''}"

definition state_inv :: "state \<Rightarrow> bool" where
  "state_inv st \<longleftrightarrow> distinct (map id' (items st)) \<and> filter' st \<in> filter_values"

definition default_state :: state where
  "default_state = \<lparr>items = [], filter' = js ''all''\<rparr>"

section \<open>JavaScript values\<close>

text \<open>
  The values that \<open>JSON.parse\<close> builds, and \<open>undefined\<close>. An object is the list of
  its own properties in property order. \<open>JNum q\<close> is a Number whose numeric literal
  has the exact value \<open>q\<close>; the program never computes with numbers. \<open>JFun\<close> is a
  built-in function object, given by its name.
\<close>

datatype jsval =
    JUndefined
  | JNull
  | JBool bool
  | JNum rat
  | JStr jsstring
  | JArr "jsval list"
  | JObj "(jsstring \<times> jsval) list"
  | JFun jsstring

datatype js_error = TypeError | SyntaxError | SecurityError | QuotaExceededError

text \<open>
  \<open>ToBoolean\<close>. A numeric literal is rounded to the nearest double, ties to even,
  which gives zero exactly when its magnitude is at most 2 to the power -1075,
  half of the least positive double.
\<close>

fun truthy :: "jsval \<Rightarrow> bool" where
  "truthy JUndefined = False"
| "truthy JNull = False"
| "truthy (JBool b) = b"
| "truthy (JNum q) = (\<bar>q\<bar> * 2 ^ 1075 > 1)"
| "truthy (JStr s) = (s \<noteq> [])"
| "truthy (JArr xs) = True"
| "truthy (JObj ps) = True"
| "truthy (JFun f) = True"

text \<open>
  Reading a property, for the three names this program reads: \<open>tasks\<close>, \<open>items\<close>
  and \<open>filter\<close>. On \<open>undefined\<close> and \<open>null\<close> the read throws. An object has its own
  properties; of the three names only \<open>filter\<close> is inherited, by arrays, from
  \<open>Array.prototype\<close>.
\<close>

fun get :: "jsval \<Rightarrow> jsstring \<Rightarrow> js_error + jsval" where
  "get JUndefined k = Inl TypeError"
| "get JNull k = Inl TypeError"
| "get (JObj ps) k = Inr (case map_of ps k of None \<Rightarrow> JUndefined | Some v \<Rightarrow> v)"
| "get (JArr xs) k = Inr (if k = js ''filter'' then JFun (js ''filter'') else JUndefined)"
| "get v k = Inr JUndefined"

text \<open>Optional chaining \<open>v?.k\<close>.\<close>

definition opt_get :: "jsval \<Rightarrow> jsstring \<Rightarrow> js_error + jsval" where
  "opt_get v k = (if v = JUndefined \<or> v = JNull then Inr JUndefined else get v k)"

text \<open>
  \<open>a && b\<close> and \<open>a || b\<close>: the right operand of \<open>&&\<close> is evaluated only when the
  left one is truthy, so it is passed as a computation that may throw.
\<close>

definition js_and :: "jsval \<Rightarrow> js_error + jsval \<Rightarrow> js_error + jsval" where
  "js_and a b = (if truthy a then b else Inr a)"

definition js_or :: "js_error + jsval \<Rightarrow> jsval \<Rightarrow> js_error + jsval" where
  "js_or a b = (case a of Inl e \<Rightarrow> Inl e | Inr v \<Rightarrow> Inr (if truthy v then v else b))"

definition then_get :: "js_error + jsval \<Rightarrow> (jsval \<Rightarrow> js_error + jsval) \<Rightarrow> js_error + jsval" where
  "then_get a f = (case a of Inl e \<Rightarrow> Inl e | Inr v \<Rightarrow> f v)"

section \<open>JSON text\<close>

subsection \<open>Writing\<close>

text \<open>
  \<open>QuoteJSONString\<close>: the two-character escapes; a backslash, \<open>u\<close> and four
  lower-case hex digits for the other control characters and for a surrogate
  that is not part of a pair; every other code unit as it is.
\<close>

definition hex_digit :: "jschar \<Rightarrow> jschar" where
  "hex_digit n = (if n < 10 then 0x30 + n else 0x61 + (n - 10))"

definition unicode_escape :: "jschar \<Rightarrow> jsstring" where
  "unicode_escape c =
     [0x5C, 0x75, hex_digit (c div 0x1000), hex_digit (c div 0x100 mod 0x10),
      hex_digit (c div 0x10 mod 0x10), hex_digit (c mod 0x10)]"

definition is_lead :: "jschar \<Rightarrow> bool" where
  "is_lead c \<longleftrightarrow> 0xD800 \<le> c \<and> c \<le> 0xDBFF"

definition is_trail :: "jschar \<Rightarrow> bool" where
  "is_trail c \<longleftrightarrow> 0xDC00 \<le> c \<and> c \<le> 0xDFFF"

definition quote_unit :: "jschar \<Rightarrow> jsstring" where
  "quote_unit c =
     (if c = 0x08 then [0x5C, 0x62]
      else if c = 0x09 then [0x5C, 0x74]
      else if c = 0x0A then [0x5C, 0x6E]
      else if c = 0x0C then [0x5C, 0x66]
      else if c = 0x0D then [0x5C, 0x72]
      else if c = 0x22 then [0x5C, 0x22]
      else if c = 0x5C then [0x5C, 0x5C]
      else if c < 0x20 \<or> is_lead c \<or> is_trail c then unicode_escape c
      else [c])"

fun quote_units :: "jsstring \<Rightarrow> jsstring" where
  "quote_units [] = []"
| "quote_units [c] = quote_unit c"
| "quote_units (c # d # cs) =
     (if is_lead c \<and> is_trail d then c # d # quote_units cs
      else quote_unit c @ quote_units (d # cs))"

definition quote :: "jsstring \<Rightarrow> jsstring" where
  "quote s = [0x22] @ quote_units s @ [0x22]"

text \<open>
  \<open>JSON.stringify(state)\<close> on the store state \<open>{ tasks: { items, filter } }\<close>, without
  a \<open>space\<close> argument: an object is written as its properties in order, each as
  the quoted key, a colon and the value, separated by commas; an array likewise.
\<close>

fun join :: "jsstring \<Rightarrow> jsstring list \<Rightarrow> jsstring" where
  "join sep [] = []"
| "join sep [x] = x"
| "join sep (x # y # ys) = x @ sep @ join sep (y # ys)"

definition member :: "jsstring \<Rightarrow> jsstring \<Rightarrow> jsstring" where
  "member k v = quote k @ [0x3A] @ v"

definition stringify_task :: "task \<Rightarrow> jsstring" where
  "stringify_task t =
     [0x7B] @ join [0x2C]
       [member (js ''id'') (quote (id' t)),
        member (js ''description'') (quote (description t)),
        member (js ''isDone'') (if isDone t then js ''true'' else js ''false'')]
     @ [0x7D]"

definition stringify_tasks :: "state \<Rightarrow> jsstring" where
  "stringify_tasks st =
     [0x7B] @ join [0x2C]
       [member (js ''items'') ([0x5B] @ join [0x2C] (map stringify_task (items st)) @ [0x5D]),
        member (js ''filter'') (quote (filter' st))]
     @ [0x7D]"

definition JSON_stringify :: "state \<Rightarrow> jsstring" where
  "JSON_stringify st = [0x7B] @ member (js ''tasks'') (stringify_tasks st) @ [0x7D]"

subsection \<open>Reading\<close>

text \<open>
  \<open>JSON.parse\<close>, by recursive descent over the JSON grammar. White space is TAB,
  LF, CR and SPACE.
\<close>

definition is_json_space :: "jschar \<Rightarrow> bool" where
  "is_json_space c \<longleftrightarrow> c = 0x09 \<or> c = 0x0A \<or> c = 0x0D \<or> c = 0x20"

definition skip_ws :: "jsstring \<Rightarrow> jsstring" where
  "skip_ws s = dropWhile is_json_space s"

definition hex_val :: "jschar \<Rightarrow> jschar option" where
  "hex_val c =
     (if 0x30 \<le> c \<and> c \<le> 0x39 then Some (c - 0x30)
      else if 0x61 \<le> c \<and> c \<le> 0x66 then Some (c - 0x61 + 10)
      else if 0x41 \<le> c \<and> c \<le> 0x46 then Some (c - 0x41 + 10)
      else None)"

definition hex4 :: "jsstring \<Rightarrow> jschar option" where
  "hex4 s =
     (case s of
        a # b # c # d # _ \<Rightarrow>
          (case (hex_val a, hex_val b, hex_val c, hex_val d) of
             (Some w, Some x, Some y, Some z) \<Rightarrow> Some (((w * 16 + x) * 16 + y) * 16 + z)
           | _ \<Rightarrow> None)
      | _ \<Rightarrow> None)"

definition escape :: "jschar \<Rightarrow> jschar option" where
  "escape e =
     (if e = 0x22 then Some 0x22
      else if e = 0x5C then Some 0x5C
      else if e = 0x2F then Some 0x2F
      else if e = 0x62 then Some 0x08
      else if e = 0x66 then Some 0x0C
      else if e = 0x6E then Some 0x0A
      else if e = 0x72 then Some 0x0D
      else if e = 0x74 then Some 0x09
      else None)"

definition cons_fst :: "'a \<Rightarrow> ('a list \<times> 'b) option \<Rightarrow> ('a list \<times> 'b) option" where
  "cons_fst x r = (case r of None \<Rightarrow> None | Some (xs, rest) \<Rightarrow> Some (x # xs, rest))"

text \<open>
  The characters of a string after its opening quote, up to the closing quote:
  the string read, and the text after the closing quote.
\<close>

fun string_chars :: "jsstring \<Rightarrow> (jsstring \<times> jsstring) option" where
  "string_chars [] = None"
| "string_chars (c # cs) =
     (if c = 0x22 then Some ([], cs)
      else if c = 0x5C then
        (case cs of
           [] \<Rightarrow> None
         | e # es \<Rightarrow>
             if e = 0x75 then
               (case hex4 es of
                  None \<Rightarrow> None
                | Some u \<Rightarrow> cons_fst u (string_chars (drop 4 es)))
             else
               (case escape e of
                  None \<Rightarrow> None
                | Some u \<Rightarrow> cons_fst u (string_chars es)))
      else if c < 0x20 then None
      else cons_fst c (string_chars cs))"

text \<open>
  A number: an optional minus sign, \<open>0\<close> or digits without a leading zero, an
  optional fraction, an optional exponent.
\<close>

definition is_digit :: "jschar \<Rightarrow> bool" where
  "is_digit c \<longleftrightarrow> 0x30 \<le> c \<and> c \<le> 0x39"

definition digits_val :: "jsstring \<Rightarrow> nat" where
  "digits_val ds = foldl (\<lambda>n c. 10 * n + unat (c - 0x30)) 0 ds"

definition scale10 :: "rat \<Rightarrow> int \<Rightarrow> rat" where
  "scale10 q e = (if 0 \<le> e then q * 10 ^ nat e else q / 10 ^ nat (- e))"

definition int_part :: "jsstring \<Rightarrow> (jsstring \<times> jsstring) option" where
  "int_part s =
     (case s of
        [] \<Rightarrow> None
      | c # cs \<Rightarrow>
          if c = 0x30 then Some ([c], cs)
          else if is_digit c then Some (takeWhile is_digit s, dropWhile is_digit s)
          else None)"

definition frac_part :: "jsstring \<Rightarrow> (jsstring \<times> jsstring) option" where
  "frac_part s =
     (case s of
        [] \<Rightarrow> Some ([], s)
      | c # cs \<Rightarrow>
          if c = 0x2E then
            (if takeWhile is_digit cs = [] then None
             else Some (takeWhile is_digit cs, dropWhile is_digit cs))
          else Some ([], s))"

definition exp_digits :: "bool \<Rightarrow> jsstring \<Rightarrow> (int \<times> jsstring) option" where
  "exp_digits neg s =
     (if takeWhile is_digit s = [] then None
      else Some ((if neg then - int (digits_val (takeWhile is_digit s))
                  else int (digits_val (takeWhile is_digit s))),
                 dropWhile is_digit s))"

definition exp_part :: "jsstring \<Rightarrow> (int \<times> jsstring) option" where
  "exp_part s =
     (case s of
        [] \<Rightarrow> Some (0, s)
      | c # cs \<Rightarrow>
          if c = 0x65 \<or> c = 0x45 then
            (case cs of
               [] \<Rightarrow> None
             | d # ds \<Rightarrow>
                 if d = 0x2B then exp_digits False ds
                 else if d = 0x2D then exp_digits True ds
                 else exp_digits False cs)
          else Some (0, s))"

definition unsigned_number :: "jsstring \<Rightarrow> (rat \<times> jsstring) option" where
  "unsigned_number s =
     (case int_part s of
        None \<Rightarrow> None
      | Some (ip, s1) \<Rightarrow>
          (case frac_part s1 of
             None \<Rightarrow> None
           | Some (fp, s2) \<Rightarrow>
               (case exp_part s2 of
                  None \<Rightarrow> None
                | Some (e, s3) \<Rightarrow>
                    Some (scale10 (of_nat (digits_val (ip @ fp))) (e - int (length fp)), s3))))"

definition number :: "jsstring \<Rightarrow> (rat \<times> jsstring) option" where
  "number s =
     (case s of
        [] \<Rightarrow> None
      | c # cs \<Rightarrow>
          if c = 0x2D then
            (case unsigned_number cs of None \<Rightarrow> None | Some (q, r) \<Rightarrow> Some (- q, r))
          else unsigned_number s)"

text \<open>
  The properties of a parsed object. A key that occurs again replaces the value
  in place. A new key that is an array index (the decimal form of an integer up
  to 4294967294) goes among the array indices, in ascending order; any other new
  key goes last.
\<close>

definition is_array_index :: "jsstring \<Rightarrow> bool" where
  "is_array_index k \<longleftrightarrow>
     k \<noteq> [] \<and> list_all is_digit k \<and> (length k = 1 \<or> hd k \<noteq> 0x30) \<and>
     digits_val k \<le> 4294967294"

fun insert_index :: "jsstring \<Rightarrow> jsval \<Rightarrow> (jsstring \<times> jsval) list \<Rightarrow> (jsstring \<times> jsval) list" where
  "insert_index k v [] = [(k, v)]"
| "insert_index k v ((k', v') # ps) =
     (if is_array_index k' \<and> digits_val k' < digits_val k
      then (k', v') # insert_index k v ps
      else (k, v) # (k', v') # ps)"

definition put :: "(jsstring \<times> jsval) list \<Rightarrow> jsstring \<times> jsval \<Rightarrow> (jsstring \<times> jsval) list" where
  "put ps kv =
     (case kv of (k, v) \<Rightarrow>
        if k \<in> fst ` set ps then map (\<lambda>(k', v'). if k' = k then (k', v) else (k', v')) ps
        else if is_array_index k then insert_index k v ps
        else ps @ [(k, v)])"

definition object_of :: "(jsstring \<times> jsval) list \<Rightarrow> jsval" where
  "object_of ms = JObj (foldl put [] ms)"

text \<open>A value that is not an object or an array: a string, a literal or a number.\<close>

definition scalar :: "jsstring \<Rightarrow> (jsval \<times> jsstring) option" where
  "scalar s =
     (case s of
        [] \<Rightarrow> None
      | c # cs \<Rightarrow>
          if c = 0x22 then
            (case string_chars cs of None \<Rightarrow> None | Some (str, r) \<Rightarrow> Some (JStr str, r))
          else if take 4 s = js ''true'' then Some (JBool True, drop 4 s)
          else if take 5 s = js ''false'' then Some (JBool False, drop 5 s)
          else if take 4 s = js ''null'' then Some (JNull, drop 4 s)
          else (case number s of None \<Rightarrow> None | Some (q, r) \<Rightarrow> Some (JNum q, r)))"

text \<open>
  Values, the elements of an array after its opening bracket, and the members of
  an object after its opening brace. The first argument bounds the depth of the
  calls; \<open>JSON_parse\<close> starts with more than the length of the text, which is
  always enough (\<open>JSON_parse_any_fuel\<close> below).
\<close>

fun parse_value :: "nat \<Rightarrow> jsstring \<Rightarrow> (jsval \<times> jsstring) option"
  and parse_elements :: "nat \<Rightarrow> jsstring \<Rightarrow> (jsval list \<times> jsstring) option"
  and parse_members :: "nat \<Rightarrow> jsstring \<Rightarrow> ((jsstring \<times> jsval) list \<times> jsstring) option"
where
  "parse_value 0 s = None"
| "parse_value (Suc n) s =
     (case s of
        [] \<Rightarrow> None
      | c # cs \<Rightarrow>
          if c = 0x7B then
            (case skip_ws cs of
               [] \<Rightarrow> None
             | d # ds \<Rightarrow>
                 if d = 0x7D then Some (JObj [], ds)
                 else (case parse_members n (d # ds) of
                         None \<Rightarrow> None
                       | Some (ms, r) \<Rightarrow> Some (object_of ms, r)))
          else if c = 0x5B then
            (case skip_ws cs of
               [] \<Rightarrow> None
             | d # ds \<Rightarrow>
                 if d = 0x5D then Some (JArr [], ds)
                 else (case parse_elements n (d # ds) of
                         None \<Rightarrow> None
                       | Some (vs, r) \<Rightarrow> Some (JArr vs, r)))
          else scalar s)"
| "parse_elements 0 s = None"
| "parse_elements (Suc n) s =
     (case parse_value n s of
        None \<Rightarrow> None
      | Some (v, r) \<Rightarrow>
          (case skip_ws r of
             [] \<Rightarrow> None
           | c # r1 \<Rightarrow>
               if c = 0x2C then cons_fst v (parse_elements n (skip_ws r1))
               else if c = 0x5D then Some ([v], r1)
               else None))"
| "parse_members 0 s = None"
| "parse_members (Suc n) s =
     (case s of
        [] \<Rightarrow> None
      | c # cs \<Rightarrow>
          if c = 0x22 then
            (case string_chars cs of
               None \<Rightarrow> None
             | Some (k, r) \<Rightarrow>
                 (case skip_ws r of
                    [] \<Rightarrow> None
                  | c1 # r1 \<Rightarrow>
                      if c1 = 0x3A then
                        (case parse_value n (skip_ws r1) of
                           None \<Rightarrow> None
                         | Some (v, r2) \<Rightarrow>
                             (case skip_ws r2 of
                                [] \<Rightarrow> None
                              | c3 # r3 \<Rightarrow>
                                  if c3 = 0x2C
                                  then cons_fst (k, v) (parse_members n (skip_ws r3))
                                  else if c3 = 0x7D then Some ([(k, v)], r3)
                                  else None))
                      else None))
          else None)"

definition JSON_parse :: "jsstring \<Rightarrow> js_error + jsval" where
  "JSON_parse text =
     (case parse_value (Suc (length text)) (skip_ws text) of
        None \<Rightarrow> Inl SyntaxError
      | Some (v, r) \<Rightarrow> if skip_ws r = [] then Inr v else Inl SyntaxError)"

section \<open>Persistence\<close>

text \<open>
  \<open>localStorage\<close>: access may be denied, so that every call throws; the quota may
  be used up, so that \<open>setItem\<close> throws; otherwise \<open>setItem\<close> stores the value.
  \<open>getItem\<close> returns \<open>null\<close> for a key that is absent.
\<close>

datatype storage =
    Denied
  | Exhausted "jsstring \<rightharpoonup> jsstring"
  | Available "jsstring \<rightharpoonup> jsstring"

fun getItem :: "storage \<Rightarrow> jsstring \<Rightarrow> js_error + jsstring option" where
  "getItem Denied k = Inl SecurityError"
| "getItem (Exhausted m) k = Inr (m k)"
| "getItem (Available m) k = Inr (m k)"

fun setItem :: "storage \<Rightarrow> jsstring \<Rightarrow> jsstring \<Rightarrow> js_error + storage" where
  "setItem Denied k v = Inl SecurityError"
| "setItem (Exhausted m) k v = Inl QuotaExceededError"
| "setItem (Available m) k v = Inr (Available (m(k \<mapsto> v)))"

definition storage_key :: jsstring where
  "storage_key = js ''redux_todo_state''"

text \<open>
  \<open>persisted\<close>: the stored text, parsed; \<open>undefined\<close> when the text is \<open>null\<close> or
  empty, and when \<open>getItem\<close> or \<open>JSON.parse\<close> throws.
\<close>

definition persisted :: "storage \<Rightarrow> jsval" where
  "persisted ls =
     (case getItem ls storage_key of
        Inl e \<Rightarrow> JUndefined
      | Inr None \<Rightarrow> JUndefined
      | Inr (Some raw) \<Rightarrow>
          if raw \<noteq> [] then (case JSON_parse raw of Inl e \<Rightarrow> JUndefined | Inr v \<Rightarrow> v)
          else JUndefined)"

text \<open>\<open>initialState\<close> of the slice, from the value of \<open>persisted\<close>.\<close>

definition initialState :: "jsval \<Rightarrow> js_error + jsval" where
  "initialState p =
     (case js_or (js_and p (then_get (get p (js ''tasks'')) (\<lambda>t. opt_get t (js ''items''))))
             (JArr []) of
        Inl e \<Rightarrow> Inl e
      | Inr its \<Rightarrow>
          (case js_or (js_and p (then_get (get p (js ''tasks'')) (\<lambda>t. opt_get t (js ''filter''))))
                  (JStr (js ''all'')) of
             Inl e \<Rightarrow> Inl e
           | Inr f \<Rightarrow> Inr (JObj [(js ''items'', its), (js ''filter'', f)])))"

text \<open>The objects that a task, a slice state and a store state are in JavaScript.\<close>

definition task_object :: "task \<Rightarrow> jsval" where
  "task_object t =
     JObj [(js ''id'', JStr (id' t)), (js ''description'', JStr (description t)),
           (js ''isDone'', JBool (isDone t))]"

definition state_object :: "state \<Rightarrow> jsval" where
  "state_object st =
     JObj [(js ''items'', JArr (map task_object (items st))), (js ''filter'', JStr (filter' st))]"

definition store_object :: "state \<Rightarrow> jsval" where
  "store_object st = JObj [(js ''tasks'', state_object st)]"

text \<open>
  The state of the store after \<open>configureStore\<close> with the reducer map
  \<open>{ tasks: tasksSlice.reducer }\<close> and \<open>preloadedState: persisted\<close>. Redux calls the
  slice reducer with the \<open>tasks\<close> property of the preloaded state; the reducer
  returns \<open>initialState\<close> when that is \<open>undefined\<close>, and the value itself otherwise.
  An \<open>undefined\<close> preloaded state is the empty object.
\<close>

definition store_start :: "jsval \<Rightarrow> js_error + jsval" where
  "store_start p =
     (case initialState p of
        Inl e \<Rightarrow> Inl e
      | Inr init \<Rightarrow>
          (case get (if p = JUndefined then JObj [] else p) (js ''tasks'') of
             Inl e \<Rightarrow> Inl e
           | Inr t \<Rightarrow> Inr (JObj [(js ''tasks'', if t = JUndefined then init else t)])))"

text \<open>
  The listener of \<open>store.subscribe\<close>: writes the state after every dispatch, and
  ignores a write that throws.
\<close>

definition subscribe_listener :: "state \<Rightarrow> storage \<Rightarrow> storage" where
  "subscribe_listener st ls =
     (case setItem ls storage_key (JSON_stringify st) of Inl e \<Rightarrow> ls | Inr ls' \<Rightarrow> ls')"

section \<open>Example states\<close>

text \<open>
  Two identifiers of the form that \<open>nanoid()\<close> returns (21 characters), and the
  state after adding \<open>Buy milk\<close> and then \<open>Call Bob\<close> to the empty list.
\<close>

definition id_milk :: jsstring where
  "id_milk = js ''V1StGXR8_Z5jdHi6B-myT''"

definition id_bob :: jsstring where
  "id_bob = js ''Uakgb_J5m9g-0JDMbcJqL''"

definition two_tasks :: state where
  "two_tasks =
     \<lparr>items = [\<lparr>id' = id_bob, description = js ''Call Bob'', isDone = False\<rparr>,
               \<lparr>id' = id_milk, description = js ''Buy milk'', isDone = False\<rparr>],
      filter' = js ''all''\<rparr>"

text \<open>
  Stored texts: \<open>{"tasks":{"filter":""}}\<close>, \<open>{"tasks":{"filter":"done"}}\<close> and
  \<open>{"tasks":{"items":[t]}}\<close> for the task \<open>Buy milk\<close>; and the storage that holds
  a given text under the key of the program.
\<close>

definition blob_empty_filter :: jsstring where
  "blob_empty_filter =
     [0x7B] @ member (js ''tasks'') ([0x7B] @ member (js ''filter'') (quote (js '''')) @ [0x7D])
     @ [0x7D]"

definition blob_filter_only :: jsstring where
  "blob_filter_only =
     [0x7B] @ member (js ''tasks'') ([0x7B] @ member (js ''filter'') (quote (js ''done'')) @ [0x7D])
     @ [0x7D]"

definition milk_task :: task where
  "milk_task = \<lparr>id' = id_milk, description = js ''Buy milk'', isDone = False\<rparr>"

definition blob_items_only :: jsstring where
  "blob_items_only =
     [0x7B] @ member (js ''tasks'')
       ([0x7B] @ member (js ''items'') ([0x5B] @ stringify_task milk_task @ [0x5D]) @ [0x7D])
     @ [0x7D]"

definition stored :: "jsstring \<Rightarrow> storage" where
  "stored raw = Available (Map.empty(storage_key \<mapsto> raw))"

section \<open>Properties of the reducers\<close>

lemma find_first_None: "find_first p xs = None \<longleftrightarrow> (\<forall>x \<in> set xs. \<not> p x)"
  by (induction xs) auto

lemma find_first_Some:
  "find_first p xs = Some k \<Longrightarrow> k < length xs \<and> p (xs ! k) \<and> (\<forall>j<k. \<not> p (xs ! j))"
proof (induction xs arbitrary: k)
  case Nil
  then show ?case by simp
next
  case (Cons x xs)
  show ?case
  proof (cases "p x")
    case True
    with Cons.prems show ?thesis by simp
  next
    case False
    with Cons.prems obtain k' where k: "find_first p xs = Some k'" "k = Suc k'"
      by auto
    from Cons.IH [OF k(1)] False k(2) show ?thesis
      by (auto simp: nth_Cons split: nat.splits)
  qed
qed

lemma find_first_update:
  "find_first p xs = Some k \<Longrightarrow> p y \<Longrightarrow> find_first p (xs[k := y]) = Some k"
proof (induction xs arbitrary: k)
  case Nil
  then show ?case by simp
next
  case (Cons x xs)
  then show ?case
    by (cases "p x") (auto split: if_splits)
qed

lemma toggle_twice:
  assumes "k < length xs"
  shows "(xs[k := (xs ! k)\<lparr>isDone := \<not> isDone (xs ! k)\<rparr>])
           [k := ((xs[k := (xs ! k)\<lparr>isDone := \<not> isDone (xs ! k)\<rparr>]) ! k)
                   \<lparr>isDone := \<not> isDone ((xs[k := (xs ! k)\<lparr>isDone := \<not> isDone (xs ! k)\<rparr>]) ! k)\<rparr>] = xs"
  using assms by (simp add: list_update_same_conv)

lemma map_id_update:
  "k < length xs \<Longrightarrow> id' y = id' (xs ! k) \<Longrightarrow> map id' (xs[k := y]) = map id' xs"
  by (simp add: map_update list_update_same_conv)

lemma trim_blank: "trim (js ''   '') = []"
  by (simp add: trim_def js_def is_trim_space_def)

lemma trim_empty: "trim (js '''') = []"
  by (simp add: trim_def js_def)

lemma trim_new: "trim (js ''new'') = js ''new''"
  by (simp add: trim_def js_def is_trim_space_def)

lemmas example_defs = two_tasks_def id_milk_def id_bob_def default_state_def

subsection \<open>Adding a task\<close>

text \<open>
  C1, as stated, fails: the \<open>addTask\<close> action trims the description and does
  not check it. Dispatched with three spaces on the empty list, it adds a task
  whose description is the empty string.
\<close>

theorem addTask_blank_adds_task:
  "trim (js ''   '') = [] \<and>
   items default_state = [] \<and>
   items (dispatch (addTask id_milk (js ''   '')) default_state)
     = [\<lparr>id' = id_milk, description = [], isDone = False\<rparr>]"
  by (simp add: dispatch_def addTask_def prepare_def addTask_reducer_def default_state_def
      trim_blank)

text \<open>
  C1, amended: the check is in the form. Submitting the \<open>AddTask\<close> form with a
  text whose trimmed form is empty dispatches nothing: the store state (items and
  filter) is unchanged, and so is the text of the field.
\<close>

theorem onSubmit_blank_noop:
  "trim text = [] \<Longrightarrow> onSubmit nanoid (st, text) = (st, text)"
  by (simp add: onSubmit_def)

theorem onSubmit_blank_noop_witness:
  "trim (js ''   '') = [] \<and>
   onSubmit id_bob (two_tasks, js ''   '') = (two_tasks, js ''   '')"
  using onSubmit_blank_noop [of "js ''   ''" id_bob two_tasks]
  by (simp add: trim_blank)

text \<open>
  C2, as stated, fails in one part: the reducer does not compare the new id with
  the ids in the list. When \<open>nanoid()\<close> returns the id of a task of the list, the
  new task carries an id that is already there.
\<close>

theorem addTask_id_collision:
  "trim (js ''Buy milk'') \<noteq> [] \<and>
   id' (hd (items (dispatch (addTask id_milk (js ''Buy milk'')) two_tasks)))
     \<in> id' ` set (items two_tasks)"
  by (simp add: dispatch_def addTask_def prepare_def addTask_reducer_def two_tasks_def
      trim_def js_def is_trim_space_def)

text \<open>
  C2, amended: for every state and every string \<open>s\<close> whose trimmed form is not
  empty, \<open>addTask(s)\<close> puts exactly one new task at the front of the items. The new
  task has the description \<open>s.trim()\<close>, \<open>isDone = false\<close> and the id that \<open>nanoid()\<close>
  returned; that id differs from every id of the list exactly when the value
  returned by \<open>nanoid()\<close> does. The tasks that were there and the filter are
  unchanged.
\<close>

theorem addTask_prepends:
  "trim s \<noteq> [] \<Longrightarrow>
   dispatch (addTask nanoid s) st
     = st\<lparr>items := \<lparr>id' = nanoid, description = trim s, isDone = False\<rparr> # items st\<rparr> \<and>
   length (items (dispatch (addTask nanoid s) st)) = Suc (length (items st)) \<and>
   hd (items (dispatch (addTask nanoid s) st))
     = \<lparr>id' = nanoid, description = trim s, isDone = False\<rparr> \<and>
   tl (items (dispatch (addTask nanoid s) st)) = items st \<and>
   filter' (dispatch (addTask nanoid s) st) = filter' st \<and>
   (id' (hd (items (dispatch (addTask nanoid s) st))) \<notin> id' ` set (items st)
      \<longleftrightarrow> nanoid \<notin> id' ` set (items st))"
  by (simp add: dispatch_def addTask_def prepare_def addTask_reducer_def)

theorem addTask_prepends_witness:
  "trim (js ''new'') \<noteq> [] \<and>
   dispatch (addTask id_bob (js ''new'')) default_state
     = \<lparr>items = [\<lparr>id' = id_bob, description = js ''new'', isDone = False\<rparr>],
        filter' = js ''all''\<rparr> \<and>
   id' (hd (items (dispatch (addTask id_bob (js ''new'')) default_state)))
     \<notin> id' ` set (items default_state)"
proof -
  have ne: "trim (js ''new'') \<noteq> []"
    by (simp add: trim_def js_def is_trim_space_def)
  from ne addTask_prepends [OF ne, of id_bob default_state] show ?thesis
    by (simp add: trim_new default_state_def)
qed

subsection \<open>The invariant\<close>

text \<open>
  C3, as stated, fails: \<open>setFilter\<close> stores whatever it is given. From the default
  state, which satisfies the invariant, \<open>setFilter("bogus")\<close> leads to a state whose
  filter is none of the three values.
\<close>

theorem setFilter_breaks_invariant:
  "state_inv default_state \<and>
   \<not> state_inv (dispatch (setFilter (js ''bogus'')) default_state)"
  by (simp add: state_inv_def default_state_def filter_values_def dispatch_def setFilter_def
      setFilter_reducer_def js_def)

text \<open>
  C3, amended: the default state satisfies the invariant (ids pairwise distinct,
  filter one of \<open>all\<close>, \<open>done\<close>, \<open>not\<close>), and every action preserves it, provided
  that the value given to \<open>setFilter\<close> is one of the three and that the id of the
  task given to \<open>addTask\<close> is not in the list. \<open>toggleDone\<close>, \<open>editTask\<close> and
  \<open>clearAll\<close> preserve it without condition.
\<close>

theorem dispatch_preserves_invariant:
  "state_inv default_state \<and>
   (state_inv st \<and>
    (case a of
       AddTask t \<Rightarrow> id' t \<notin> id' ` set (items st)
     | SetFilter v \<Rightarrow> v \<in> filter_values
     | _ \<Rightarrow> True)
    \<longrightarrow> state_inv (dispatch a st))"
proof -
  have "state_inv default_state"
    by (simp add: state_inv_def default_state_def filter_values_def)
  moreover have "state_inv (dispatch a st)"
    if inv: "state_inv st"
      and adm: "case a of AddTask t \<Rightarrow> id' t \<notin> id' ` set (items st)
             | SetFilter v \<Rightarrow> v \<in> filter_values | _ \<Rightarrow> True"
  proof (cases a)
    case (AddTask t)
    with inv adm show ?thesis
      by (simp add: state_inv_def dispatch_def addTask_reducer_def)
  next
    case (ToggleDone i)
    show ?thesis
    proof (cases "find_first (\<lambda>x. id' x = i) (items st)")
      case None
      with inv ToggleDone show ?thesis
        by (simp add: dispatch_def toggleDone_reducer_def)
    next
      case (Some k)
      from find_first_Some [OF Some] have "k < length (items st)" by simp
      then have "map id' ((items st)[k := (items st ! k)\<lparr>isDone := \<not> isDone (items st ! k)\<rparr>])
          = map id' (items st)"
        by (simp add: map_id_update)
      with inv ToggleDone Some show ?thesis
        by (simp add: state_inv_def dispatch_def toggleDone_reducer_def)
    qed
  next
    case (EditTask i d)
    show ?thesis
    proof (cases "find_first (\<lambda>x. id' x = i) (items st)")
      case None
      with inv EditTask show ?thesis
        by (simp add: dispatch_def editTask_reducer_def)
    next
      case (Some k)
      from find_first_Some [OF Some] have "k < length (items st)" by simp
      then have "map id' ((items st)[k := (items st ! k)\<lparr>description := trim d\<rparr>])
          = map id' (items st)"
        by (simp add: map_id_update)
      with inv EditTask Some show ?thesis
        by (simp add: state_inv_def dispatch_def editTask_reducer_def)
    qed
  next
    case (SetFilter v)
    with inv adm show ?thesis
      by (simp add: state_inv_def dispatch_def setFilter_reducer_def)
  next
    case ClearAll
    with inv show ?thesis
      by (simp add: state_inv_def dispatch_def clearAll_reducer_def)
  qed
  ultimately show ?thesis by blast
qed

theorem dispatch_preserves_invariant_witness:
  "state_inv default_state \<and> js ''done'' \<in> filter_values \<and>
   state_inv (dispatch (setFilter (js ''done'')) default_state) \<and>
   id' (prepare id_milk (js ''Buy milk'')) \<notin> id' ` set (items default_state) \<and>
   state_inv (dispatch (addTask id_milk (js ''Buy milk'')) default_state)"
  using dispatch_preserves_invariant [of default_state "SetFilter (js ''done'')"]
    dispatch_preserves_invariant [of default_state "AddTask (prepare id_milk (js ''Buy milk''))"]
  by (simp add: setFilter_def addTask_def filter_values_def default_state_def)

subsection \<open>Toggling and editing\<close>

text \<open>
  C4: \<open>toggleDone(id)\<close> changes nothing when no task has the id; otherwise it
  negates \<open>isDone\<close> of the first task with that id (the only one, when ids are
  distinct) and leaves every other field, every other task and the filter as
  they are. Applied twice, it gives back the state it started from.
\<close>

theorem toggleDone_flips_involution:
  "(ident \<notin> id' ` set (items st) \<longrightarrow> dispatch (toggleDone ident) st = st) \<and>
   (ident \<in> id' ` set (items st) \<longrightarrow>
      (\<exists>k<length (items st).
         id' (items st ! k) = ident \<and> (\<forall>j<k. id' (items st ! j) \<noteq> ident) \<and>
         dispatch (toggleDone ident) st
           = st\<lparr>items := (items st)[k := (items st ! k)\<lparr>isDone := \<not> isDone (items st ! k)\<rparr>]\<rparr>)) \<and>
   dispatch (toggleDone ident) (dispatch (toggleDone ident) st) = st"
proof (cases "find_first (\<lambda>x. id' x = ident) (items st)")
  case None
  then have "ident \<notin> id' ` set (items st)"
    by (auto simp: find_first_None)
  with None show ?thesis
    by (simp add: dispatch_def toggleDone_def toggleDone_reducer_def)
next
  case (Some k)
  from find_first_Some [OF Some]
  have k: "k < length (items st)" "id' (items st ! k) = ident"
    "\<forall>j<k. id' (items st ! j) \<noteq> ident"
    by auto
  let ?t = "(items st ! k)\<lparr>isDone := \<not> isDone (items st ! k)\<rparr>"
  let ?st = "st\<lparr>items := (items st)[k := ?t]\<rparr>"
  have step: "dispatch (toggleDone ident) st = ?st"
    using Some by (simp add: dispatch_def toggleDone_def toggleDone_reducer_def)
  have ff: "find_first (\<lambda>x. id' x = ident) (items ?st) = Some k"
    using find_first_update [OF Some, of ?t] k(2) by simp
  have again: "dispatch (toggleDone ident) ?st = st"
    using ff toggle_twice [OF k(1)]
    by (simp add: dispatch_def toggleDone_def toggleDone_reducer_def)
  from k step again show ?thesis
    by auto
qed

theorem toggleDone_flips_involution_witness:
  "id_milk \<in> id' ` set (items two_tasks) \<and>
   dispatch (toggleDone id_milk) two_tasks
     = \<lparr>items = [\<lparr>id' = id_bob, description = js ''Call Bob'', isDone = False\<rparr>,
                 \<lparr>id' = id_milk, description = js ''Buy milk'', isDone = True\<rparr>],
        filter' = js ''all''\<rparr> \<and>
   dispatch (toggleDone id_milk) (dispatch (toggleDone id_milk) two_tasks) = two_tasks \<and>
   js ''none'' \<notin> id' ` set (items two_tasks) \<and>
   dispatch (toggleDone (js ''none'')) two_tasks = two_tasks"
proof -
  have mem: "id_milk \<in> id' ` set (items two_tasks)"
    and not_mem: "js ''none'' \<notin> id' ` set (items two_tasks)"
    by (simp_all add: example_defs js_def)
  have "dispatch (toggleDone id_milk) two_tasks
     = \<lparr>items = [\<lparr>id' = id_bob, description = js ''Call Bob'', isDone = False\<rparr>,
                 \<lparr>id' = id_milk, description = js ''Buy milk'', isDone = True\<rparr>],
        filter' = js ''all''\<rparr>"
    by (simp add: dispatch_def toggleDone_def toggleDone_reducer_def example_defs js_def)
  with mem not_mem toggleDone_flips_involution [of id_milk two_tasks]
    toggleDone_flips_involution [of "js ''none''" two_tasks]
  show ?thesis by simp
qed

text \<open>
  C5: \<open>editTask({id, description})\<close> changes nothing when no task has the id or
  when the trimmed description is empty; otherwise it sets the description of the
  first task with that id to the trimmed description and leaves its id, its
  \<open>isDone\<close>, every other task and the filter as they are. The empty string leaves
  the description as it is; \<open>"new"\<close> sets it to \<open>"new"\<close>.
\<close>

theorem editTask_replaces_description:
  "(ident \<notin> id' ` set (items st) \<or> trim descr = []
      \<longrightarrow> dispatch (editTask ident descr) st = st) \<and>
   (ident \<in> id' ` set (items st) \<and> trim descr \<noteq> [] \<longrightarrow>
      (\<exists>k<length (items st).
         id' (items st ! k) = ident \<and> (\<forall>j<k. id' (items st ! j) \<noteq> ident) \<and>
         dispatch (editTask ident descr) st
           = st\<lparr>items := (items st)[k := (items st ! k)\<lparr>description := trim descr\<rparr>]\<rparr>)) \<and>
   dispatch (editTask ident (js '''')) st = st \<and>
   (ident \<in> id' ` set (items st) \<longrightarrow>
      (\<exists>k<length (items st).
         id' (items st ! k) = ident \<and> (\<forall>j<k. id' (items st ! j) \<noteq> ident) \<and>
         dispatch (editTask ident (js ''new'')) st
           = st\<lparr>items := (items st)[k := (items st ! k)\<lparr>description := js ''new''\<rparr>]\<rparr>))"
proof (cases "find_first (\<lambda>x. id' x = ident) (items st)")
  case None
  then have "ident \<notin> id' ` set (items st)"
    by (auto simp: find_first_None)
  with None show ?thesis
    by (simp add: dispatch_def editTask_def editTask_reducer_def)
next
  case (Some k)
  from find_first_Some [OF Some]
  have k: "k < length (items st)" "id' (items st ! k) = ident"
    "\<forall>j<k. id' (items st ! j) \<noteq> ident"
    by auto
  then have mem: "ident \<in> id' ` set (items st)"
    by (metis imageI nth_mem)
  have step: "dispatch (editTask ident d) st =
      (if trim d \<noteq> []
       then st\<lparr>items := (items st)[k := (items st ! k)\<lparr>description := trim d\<rparr>]\<rparr>
       else st)" for d
    using Some by (simp add: dispatch_def editTask_def editTask_reducer_def)
  have new: "js ''new'' \<noteq> []"
    by (simp add: js_def)
  from k mem step [of descr] step [of "js ''''"] step [of "js ''new''"] new show ?thesis
    by (auto simp: trim_empty trim_new)
qed

theorem editTask_replaces_description_witness:
  "id_milk \<in> id' ` set (items two_tasks) \<and> trim (js '' Buy oat milk '') \<noteq> [] \<and>
   dispatch (editTask id_milk (js '' Buy oat milk '')) two_tasks
     = \<lparr>items = [\<lparr>id' = id_bob, description = js ''Call Bob'', isDone = False\<rparr>,
                 \<lparr>id' = id_milk, description = js ''Buy oat milk'', isDone = False\<rparr>],
        filter' = js ''all''\<rparr> \<and>
   trim (js ''   '') = [] \<and>
   dispatch (editTask id_milk (js ''   '')) two_tasks = two_tasks \<and>
   js ''none'' \<notin> id' ` set (items two_tasks) \<and>
   dispatch (editTask (js ''none'') (js ''new'')) two_tasks = two_tasks"
proof -
  have mem: "id_milk \<in> id' ` set (items two_tasks)"
    and not_mem: "js ''none'' \<notin> id' ` set (items two_tasks)"
    by (simp_all add: example_defs js_def)
  have tr: "trim (js '' Buy oat milk '') = js ''Buy oat milk''"
    by (simp add: trim_def js_def is_trim_space_def)
  have ne: "js ''Buy oat milk'' \<noteq> []"
    by (simp add: js_def)
  have "dispatch (editTask id_milk (js '' Buy oat milk '')) two_tasks
     = \<lparr>items = [\<lparr>id' = id_bob, description = js ''Call Bob'', isDone = False\<rparr>,
                 \<lparr>id' = id_milk, description = js ''Buy oat milk'', isDone = False\<rparr>],
        filter' = js ''all''\<rparr>"
    by (simp add: dispatch_def editTask_def editTask_reducer_def example_defs trim_def js_def
        is_trim_space_def)
  moreover have "trim (js '' Buy oat milk '') \<noteq> []"
    using tr ne by simp
  ultimately show ?thesis
    using mem not_mem
    editTask_replaces_description [of id_milk two_tasks "js ''   ''"]
    editTask_replaces_description [of "js ''none''" two_tasks "js ''new''"]
    by (simp add: trim_blank)
qed

subsection \<open>Clearing and filtering\<close>

text \<open>
  C6: \<open>clearAll()\<close> gives the state whose items are empty and whose filter is the
  filter of the state before.
\<close>

theorem clearAll_empties_items:
  "dispatch clearAll st = \<lparr>items = [], filter' = filter' st\<rparr> \<and>
   items (dispatch clearAll st) = [] \<and>
   filter' (dispatch clearAll st) = filter' st"
  by (simp add: dispatch_def clearAll_def clearAll_reducer_def)

text \<open>
  C7: the list shown is a function of the items and the filter alone. It is the
  items themselves for \<open>all\<close>, the tasks with \<open>isDone = true\<close> in their order for
  \<open>done\<close>, and the tasks with \<open>isDone = false\<close> in their order for \<open>not\<close>. After
  \<open>setFilter("done")\<close> it is the tasks of the state with \<open>isDone = true\<close>.
\<close>

theorem filtered_view:
  "filtered its (js ''all'') = its \<and>
   filtered its (js ''done'') = filter (\<lambda>t. isDone t) its \<and>
   filtered its (js ''not'') = filter (\<lambda>t. \<not> isDone t) its \<and>
   filtered (items (dispatch (setFilter (js ''done'')) st))
       (filter' (dispatch (setFilter (js ''done'')) st))
     = filter (\<lambda>t. isDone t) (items st)"
  by (simp add: filtered_def js_def dispatch_def setFilter_def setFilter_reducer_def)

text \<open>
  The run of the specification: from the empty list, \<open>Buy milk\<close> and \<open>Call Bob\<close>
  are added, \<open>Buy milk\<close> is toggled, and the filter is set to \<open>done\<close>; the list
  shown is the task \<open>Buy milk\<close>, done.
\<close>

lemma example_run:
  "dispatch (addTask id_bob (js ''Call Bob''))
     (dispatch (addTask id_milk (js ''Buy milk'')) default_state) = two_tasks \<and>
   filtered
     (items (dispatch (setFilter (js ''done'')) (dispatch (toggleDone id_milk) two_tasks)))
     (filter' (dispatch (setFilter (js ''done'')) (dispatch (toggleDone id_milk) two_tasks)))
     = [\<lparr>id' = id_milk, description = js ''Buy milk'', isDone = True\<rparr>]"
  by (simp add: dispatch_def addTask_def prepare_def addTask_reducer_def toggleDone_def
      toggleDone_reducer_def setFilter_def setFilter_reducer_def filtered_def example_defs
      trim_def is_trim_space_def js_def)

section \<open>The depth bound of the parser\<close>

text \<open>
  What a successful call of the parser has done, by cases; what each part of the
  parser consumes; and that a bound as large as the number of characters consumed
  is enough.
\<close>

lemma parse_value_Suc_cases:
  assumes "parse_value (Suc n) s = Some (v, r)"
  obtains
    (empty_object) cs where "s = 0x7B # cs" "skip_ws cs = 0x7D # r" "v = JObj []"
  | (object) cs d ds ms where "s = 0x7B # cs" "skip_ws cs = d # ds" "d \<noteq> 0x7D"
      "parse_members n (d # ds) = Some (ms, r)" "v = object_of ms"
  | (empty_array) cs where "s = 0x5B # cs" "skip_ws cs = 0x5D # r" "v = JArr []"
  | (array) cs d ds vs where "s = 0x5B # cs" "skip_ws cs = d # ds" "d \<noteq> 0x5D"
      "parse_elements n (d # ds) = Some (vs, r)" "v = JArr vs"
  | (scalar) c cs where "s = c # cs" "c \<noteq> 0x7B" "c \<noteq> 0x5B" "scalar s = Some (v, r)"
  using assms
  by (auto split: list.splits option.splits if_splits)

lemma parse_elements_Suc_cases:
  assumes "parse_elements (Suc n) s = Some (vs, r)"
  obtains
    (more) v r1 r2 vs' where "parse_value n s = Some (v, r1)" "skip_ws r1 = 0x2C # r2"
      "parse_elements n (skip_ws r2) = Some (vs', r)" "vs = v # vs'"
  | (last) v r1 where "parse_value n s = Some (v, r1)" "skip_ws r1 = 0x5D # r" "vs = [v]"
  using assms
  by (auto simp: cons_fst_def split: list.splits option.splits if_splits)

lemma parse_members_Suc_cases:
  assumes "parse_members (Suc n) s = Some (ms, r)"
  obtains
    (more) cs k r0 r1 v r2 r3 ms' where "s = 0x22 # cs" "string_chars cs = Some (k, r0)"
      "skip_ws r0 = 0x3A # r1" "parse_value n (skip_ws r1) = Some (v, r2)"
      "skip_ws r2 = 0x2C # r3" "parse_members n (skip_ws r3) = Some (ms', r)"
      "ms = (k, v) # ms'"
  | (last) cs k r0 r1 v r2 where "s = 0x22 # cs" "string_chars cs = Some (k, r0)"
      "skip_ws r0 = 0x3A # r1" "parse_value n (skip_ws r1) = Some (v, r2)"
      "skip_ws r2 = 0x7D # r" "ms = [(k, v)]"
  using assms
  by (auto simp: cons_fst_def split: list.splits option.splits if_splits)


lemma skip_ws_length: "length (skip_ws s) \<le> length s"
  by (simp add: skip_ws_def length_dropWhile_le)

lemma skip_ws_Cons_length: "skip_ws s = c # r \<Longrightarrow> length r < length s"
  using skip_ws_length [of s] by simp

lemma cons_fst_Some: "cons_fst x a = Some (ys, r) \<longleftrightarrow> (\<exists>xs. a = Some (xs, r) \<and> ys = x # xs)"
  by (auto simp: cons_fst_def split: option.splits)

lemma string_chars_length: "string_chars s = Some (t, r) \<Longrightarrow> length r < length s"
proof (induction s arbitrary: t rule: string_chars.induct)
  case 1
  then show ?case by simp
next
  case (2 c cs)
  show ?case
  proof (cases "c = 0x22")
    case True
    with "2.prems" show ?thesis by simp
  next
    case quote: False
    show ?thesis
    proof (cases "c = 0x5C")
      case True
      show ?thesis
      proof (cases cs)
        case Nil
        with "2.prems" quote True show ?thesis by simp
      next
        case (Cons e es)
        show ?thesis
        proof (cases "e = 0x75")
          case u: True
          with "2.prems" quote True Cons obtain w t' where
            "hex4 es = Some w" "string_chars (drop 4 es) = Some (t', r)"
            by (auto simp: cons_fst_Some split: option.splits)
          with "2.IH"(1) [OF quote True Cons u] have "length r < length (drop 4 es)"
            by simp
          with Cons show ?thesis by simp
        next
          case u: False
          with "2.prems" quote True Cons obtain w t' where
            "escape e = Some w" "string_chars es = Some (t', r)"
            by (auto simp: cons_fst_Some split: option.splits)
          with "2.IH"(2) [OF quote True Cons u] have "length r < length es"
            by simp
          with Cons show ?thesis by simp
        qed
      qed
    next
      case False
      with "2.prems" quote obtain t' where "\<not> c < 0x20" "string_chars cs = Some (t', r)"
        by (auto simp: cons_fst_Some split: if_splits)
      with "2.IH"(3) [OF quote False] show ?thesis
        by simp
    qed
  qed
qed

lemma number_length: "number s = Some (q, r) \<Longrightarrow> length r < length s"
proof -
  have i: "length r' < length s'" if "int_part s' = Some (ip, r')" for s' ip r'
    using that
    by (auto simp: int_part_def length_dropWhile_le le_imp_less_Suc split: list.splits if_splits)
  have f: "length r' \<le> length s'" if "frac_part s' = Some (fp, r')" for s' fp r'
    using that
    by (auto simp: frac_part_def length_dropWhile_le le_SucI split: list.splits if_splits)
  have d: "length r' \<le> length s'" if "exp_digits b s' = Some (e, r')" for s' b e r'
    using that
    by (auto simp: exp_digits_def length_dropWhile_le split: if_splits)
  have e: "length r' \<le> length s'" if "exp_part s' = Some (x, r')" for s' x r'
    using that d
    by (fastforce simp: exp_part_def split: list.splits if_splits)
  have u: "length r' < length s'" if "unsigned_number s' = Some (x, r')" for s' x r'
  proof -
    from that obtain ip s1 fp s2 x' where "int_part s' = Some (ip, s1)"
      "frac_part s1 = Some (fp, s2)" "exp_part s2 = Some (x', r')"
      by (auto simp: unsigned_number_def split: option.splits)
    with i [of s' ip s1] f [of s1 fp s2] e [of s2 x' r'] show ?thesis
      by linarith
  qed
  assume "number s = Some (q, r)"
  with u show ?thesis
    by (fastforce simp: number_def split: list.splits if_splits option.splits)
qed

lemma scalar_length: "scalar s = Some (v, r) \<Longrightarrow> length r < length s"
  using string_chars_length number_length
  by (fastforce simp: scalar_def js_def split: list.splits if_splits option.splits)

lemma parse_fuel:
  "(parse_value n s = Some (v, r) \<longrightarrow>
      length r < length s \<and> (\<forall>m\<ge>length s - length r. parse_value m s = Some (v, r))) \<and>
   (parse_elements n s = Some (vs, r) \<longrightarrow>
      length r < length s \<and> (\<forall>m\<ge>length s - length r. parse_elements m s = Some (vs, r))) \<and>
   (parse_members n s = Some (ms, r) \<longrightarrow>
      length r < length s \<and> (\<forall>m\<ge>length s - length r. parse_members m s = Some (ms, r)))"
proof (induction n arbitrary: s v vs ms r)
  case 0
  show ?case by simp
next
  case (Suc n)
  note IH_v = Suc [THEN conjunct1, rule_format]
  note IH_e = Suc [THEN conjunct2, THEN conjunct1, rule_format]
  note IH_m = Suc [THEN conjunct2, THEN conjunct2, rule_format]
  have val: "length r < length s \<and> (\<forall>m\<ge>length s - length r. parse_value m s = Some (v, r))"
    if "parse_value (Suc n) s = Some (v, r)"
    using that
  proof (cases rule: parse_value_Suc_cases)
    case (empty_object cs)
    have len: "length r < length cs"
      using skip_ws_Cons_length [OF empty_object(2)] .
    have "parse_value m s = Some (v, r)" if "length s - length r \<le> m" for m
    proof -
      from that len empty_object(1) obtain m' where "m = Suc m'"
        by (cases m) auto
      with empty_object show ?thesis by simp
    qed
    with len empty_object(1) show ?thesis by simp
  next
    case (object cs d ds ms')
    from IH_m [OF object(4)]
    have l: "length r < length (d # ds)"
      and f: "\<And>m. length (d # ds) - length r \<le> m \<Longrightarrow> parse_members m (d # ds) = Some (ms', r)"
      by blast+
    have c: "length (d # ds) \<le> length cs"
      using skip_ws_length [of cs] object(2) by simp
    have "parse_value m s = Some (v, r)" if "length s - length r \<le> m" for m
    proof -
      from that l c object(1) obtain m' where m: "m = Suc m'"
        by (cases m) auto
      with that l c object(1) have "length (d # ds) - length r \<le> m'"
        by simp
      from f [OF this] object m show ?thesis by simp
    qed
    with l c object(1) show ?thesis by simp
  next
    case (empty_array cs)
    have len: "length r < length cs"
      using skip_ws_Cons_length [OF empty_array(2)] .
    have "parse_value m s = Some (v, r)" if "length s - length r \<le> m" for m
    proof -
      from that len empty_array(1) obtain m' where "m = Suc m'"
        by (cases m) auto
      with empty_array show ?thesis by simp
    qed
    with len empty_array(1) show ?thesis by simp
  next
    case (array cs d ds vs')
    from IH_e [OF array(4)]
    have l: "length r < length (d # ds)"
      and f: "\<And>m. length (d # ds) - length r \<le> m \<Longrightarrow> parse_elements m (d # ds) = Some (vs', r)"
      by blast+
    have c: "length (d # ds) \<le> length cs"
      using skip_ws_length [of cs] array(2) by simp
    have "parse_value m s = Some (v, r)" if "length s - length r \<le> m" for m
    proof -
      from that l c array(1) obtain m' where m: "m = Suc m'"
        by (cases m) auto
      with that l c array(1) have "length (d # ds) - length r \<le> m'"
        by simp
      from f [OF this] array m show ?thesis by simp
    qed
    with l c array(1) show ?thesis by simp
  next
    case (scalar c cs)
    have len: "length r < length s"
      using scalar_length [OF scalar(4)] .
    have "parse_value m s = Some (v, r)" if "length s - length r \<le> m" for m
    proof -
      from that len obtain m' where "m = Suc m'"
        by (cases m) auto
      with scalar show ?thesis by simp
    qed
    with len show ?thesis by simp
  qed
  have elems: "length r < length s \<and> (\<forall>m\<ge>length s - length r. parse_elements m s = Some (vs, r))"
    if "parse_elements (Suc n) s = Some (vs, r)"
    using that
  proof (cases rule: parse_elements_Suc_cases)
    case (more v' r1 r2 vs')
    from IH_v [OF more(1)]
    have l1: "length r1 < length s"
      and f1: "\<And>m. length s - length r1 \<le> m \<Longrightarrow> parse_value m s = Some (v', r1)"
      by blast+
    from IH_e [OF more(3)]
    have l2: "length r < length (skip_ws r2)"
      and f2: "\<And>m. length (skip_ws r2) - length r \<le> m
                 \<Longrightarrow> parse_elements m (skip_ws r2) = Some (vs', r)"
      by blast+
    have c: "length (skip_ws r2) \<le> length r2" "length r2 < length r1"
      using skip_ws_length [of r2] skip_ws_Cons_length [OF more(2)] by simp_all
    have "parse_elements m s = Some (vs, r)" if "length s - length r \<le> m" for m
    proof -
      from that l1 l2 c obtain m' where m: "m = Suc m'"
        by (cases m) auto
      with that l1 l2 c have "length s - length r1 \<le> m'" "length (skip_ws r2) - length r \<le> m'"
        by simp_all
      from f1 [OF this(1)] f2 [OF this(2)] more m show ?thesis
        by (simp add: cons_fst_def)
    qed
    with l1 l2 c show ?thesis by simp
  next
    case (last v' r1)
    from IH_v [OF last(1)]
    have l1: "length r1 < length s"
      and f1: "\<And>m. length s - length r1 \<le> m \<Longrightarrow> parse_value m s = Some (v', r1)"
      by blast+
    have c: "length r < length r1"
      using skip_ws_Cons_length [OF last(2)] .
    have "parse_elements m s = Some (vs, r)" if "length s - length r \<le> m" for m
    proof -
      from that l1 c obtain m' where m: "m = Suc m'"
        by (cases m) auto
      with that l1 c have "length s - length r1 \<le> m'"
        by simp
      from f1 [OF this] last m show ?thesis
        by simp
    qed
    with l1 c show ?thesis by simp
  qed
  have membs: "length r < length s \<and> (\<forall>m\<ge>length s - length r. parse_members m s = Some (ms, r))"
    if "parse_members (Suc n) s = Some (ms, r)"
    using that
  proof (cases rule: parse_members_Suc_cases)
    case (more cs k r0 r1 v' r2 r3 ms')
    from IH_v [OF more(4)]
    have l1: "length r2 < length (skip_ws r1)"
      and f1: "\<And>m. length (skip_ws r1) - length r2 \<le> m
                 \<Longrightarrow> parse_value m (skip_ws r1) = Some (v', r2)"
      by blast+
    from IH_m [OF more(6)]
    have l2: "length r < length (skip_ws r3)"
      and f2: "\<And>m. length (skip_ws r3) - length r \<le> m
                 \<Longrightarrow> parse_members m (skip_ws r3) = Some (ms', r)"
      by blast+
    have c: "length r0 < length cs" "length r1 < length r0" "length (skip_ws r1) \<le> length r1"
      "length r3 < length r2" "length (skip_ws r3) \<le> length r3"
      using string_chars_length [OF more(2)] skip_ws_Cons_length [OF more(3)]
        skip_ws_length [of r1] skip_ws_Cons_length [OF more(5)] skip_ws_length [of r3]
      by simp_all
    have "parse_members m s = Some (ms, r)" if "length s - length r \<le> m" for m
    proof -
      from that l1 l2 c more(1) obtain m' where m: "m = Suc m'"
        by (cases m) auto
      with that l1 l2 c more(1)
      have "length (skip_ws r1) - length r2 \<le> m'" "length (skip_ws r3) - length r \<le> m'"
        by simp_all
      from f1 [OF this(1)] f2 [OF this(2)] more m show ?thesis
        by (simp add: cons_fst_def)
    qed
    with l1 l2 c more(1) show ?thesis by simp
  next
    case (last cs k r0 r1 v' r2)
    from IH_v [OF last(4)]
    have l1: "length r2 < length (skip_ws r1)"
      and f1: "\<And>m. length (skip_ws r1) - length r2 \<le> m
                 \<Longrightarrow> parse_value m (skip_ws r1) = Some (v', r2)"
      by blast+
    have c: "length r0 < length cs" "length r1 < length r0" "length (skip_ws r1) \<le> length r1"
      "length r < length r2"
      using string_chars_length [OF last(2)] skip_ws_Cons_length [OF last(3)]
        skip_ws_length [of r1] skip_ws_Cons_length [OF last(5)]
      by simp_all
    have "parse_members m s = Some (ms, r)" if "length s - length r \<le> m" for m
    proof -
      from that l1 c last(1) obtain m' where m: "m = Suc m'"
        by (cases m) auto
      with that l1 c last(1) have "length (skip_ws r1) - length r2 \<le> m'"
        by simp
      from f1 [OF this] last m show ?thesis
        by simp
    qed
    with l1 c last(1) show ?thesis by simp
  qed
  from val elems membs show ?case by blast
qed

text \<open>
  So \<open>JSON_parse\<close> never fails for want of depth: a parse that succeeds with any
  bound succeeds with the bound that \<open>JSON_parse\<close> gives.
\<close>

lemma JSON_parse_any_fuel:
  assumes "parse_value n (skip_ws raw) = Some (v, r)" and "skip_ws r = []"
  shows "JSON_parse raw = Inr v"
proof -
  from parse_fuel [of n "skip_ws raw" v r] assms(1)
  have "parse_value m (skip_ws raw) = Some (v, r)" if "length (skip_ws raw) - length r \<le> m" for m
    using that by blast
  moreover have "length (skip_ws raw) - length r \<le> Suc (length raw)"
    using skip_ws_length [of raw] by simp
  ultimately have "parse_value (Suc (length raw)) (skip_ws raw) = Some (v, r)"
    by blast
  with assms(2) show ?thesis
    by (simp add: JSON_parse_def)
qed

section \<open>Writing and reading back\<close>

subsection \<open>Strings\<close>

lemma hex_val_digit:
  fixes n :: jschar
  assumes "n < 16"
  shows "hex_val (hex_digit n) = Some n"
proof -
  define k where "k = unat n"
  have n: "n = of_nat k"
    by (simp add: k_def)
  have "k < 16"
    using assms by (simp add: k_def word_less_nat_alt)
  then have "k = 0 \<or> k = 1 \<or> k = 2 \<or> k = 3 \<or> k = 4 \<or> k = 5 \<or> k = 6 \<or> k = 7 \<or> k = 8
      \<or> k = 9 \<or> k = 10 \<or> k = 11 \<or> k = 12 \<or> k = 13 \<or> k = 14 \<or> k = 15"
    by arith
  then show ?thesis
    unfolding n by (elim disjE) (simp_all add: hex_val_def hex_digit_def)
qed

lemma nat_hex_split:
  fixes n :: nat
  shows "n = 4096 * (n div 4096) + 256 * (n div 256 mod 16) + 16 * (n div 16 mod 16) + n mod 16"
proof -
  have e1: "n = 16 * (n div 16) + n mod 16"
    by simp
  have "n div 16 div 16 = n div 256" "n div 256 div 16 = n div 4096"
    by (simp_all add: div_mult2_eq [symmetric])
  then have e2: "n div 16 = 16 * (n div 256) + n div 16 mod 16"
    and e3: "n div 256 = 16 * (n div 4096) + n div 256 mod 16"
    by (metis mult_div_mod_eq)+
  from e1 e2 e3 show ?thesis
    by linarith
qed

lemma hex_split:
  fixes c :: jschar
  shows "4096 * (c div 4096) + 256 * (c div 256 mod 16) + c div 16 mod 16 * 16 + c mod 16 = c"
proof -
  define n where "n = unat c"
  have b: "n < 65536"
    unfolding n_def using unsigned_less [of c, where 'a = nat] by simp
  note s = nat_hex_split [of n]
  have l1: "4096 * (n div 4096) + 256 * (n div 256 mod 16) < 65536"
    and l2: "4096 * (n div 4096) + 256 * (n div 256 mod 16) + n div 16 mod 16 * 16 < 65536"
    using s b by linarith+
  have "unat (4096 * (c div 4096) + 256 * (c div 256 mod 16) + c div 16 mod 16 * 16 + c mod 16)
      = unat c"
    using b l1 l2 s
    by (simp add: unat_word_ariths unat_div unat_mod n_def [symmetric])
  then show ?thesis
    by (simp add: word_unat_eq_iff)
qed

lemma nibbles:
  fixes c :: jschar
  shows "c div 0x1000 < 16" "c div 0x100 mod 0x10 < 16" "c div 0x10 mod 0x10 < 16" "c mod 0x10 < 16"
  using unsigned_less [of c, where 'a = nat]
  by (simp_all add: word_less_nat_alt unat_div unat_mod) 

lemma hex4_digits:
  "hex4 (hex_digit (c div 0x1000) # hex_digit (c div 0x100 mod 0x10) #
         hex_digit (c div 0x10 mod 0x10) # hex_digit (c mod 0x10) # r) = Some c"
  by (simp add: hex4_def hex_val_digit nibbles hex_split)

lemma string_chars_escape:
  "string_chars (unicode_escape c @ r) = cons_fst c (string_chars r)"
  by (simp add: unicode_escape_def hex4_digits)

lemma string_chars_quote_unit:
  "string_chars (quote_unit c @ r) = cons_fst c (string_chars r)"
proof (cases "c < 0x20 \<or> is_lead c \<or> is_trail c")
  case True
  then show ?thesis
    by (auto simp: quote_unit_def escape_def string_chars_escape)
next
  case False
  then show ?thesis
    by (auto simp: quote_unit_def escape_def)
qed

lemma surrogate_plain:
  "is_lead c \<or> is_trail c \<Longrightarrow> c \<noteq> 0x22 \<and> c \<noteq> 0x5C \<and> \<not> c < 0x20"
  by (auto simp: is_lead_def is_trail_def word_le_nat_alt word_less_nat_alt)

lemma cons_fst_cons_fst:
  "cons_fst c (case r of None \<Rightarrow> None | Some (t, r') \<Rightarrow> Some (s @ t, r'))
     = (case r of None \<Rightarrow> None | Some (t, r') \<Rightarrow> Some ((c # s) @ t, r'))"
  by (simp add: cons_fst_def split: option.splits)

lemma string_chars_quote_units:
  "string_chars (quote_units s @ r)
     = (case string_chars r of None \<Rightarrow> None | Some (t, r') \<Rightarrow> Some (s @ t, r'))"
proof (induction s rule: quote_units.induct)
  case 1
  show ?case by (simp split: option.splits)
next
  case (2 c)
  show ?case
    by (simp add: string_chars_quote_unit cons_fst_def split: option.splits)
next
  case (3 c d cs)
  show ?case
  proof (cases "is_lead c \<and> is_trail d")
    case True
    then have eq: "quote_units (c # d # cs) = c # d # quote_units cs"
      by simp
    from True surrogate_plain [of c] surrogate_plain [of d]
    have "string_chars (c # d # quote_units cs @ r)
        = cons_fst c (cons_fst d (string_chars (quote_units cs @ r)))"
      by simp
    with "3.IH"(1) [OF True] show ?thesis
      unfolding eq by (simp add: cons_fst_def split: option.splits)
  next
    case False
    then have eq: "quote_units (c # d # cs) = quote_unit c @ quote_units (d # cs)"
      by auto
    have "string_chars ((quote_unit c @ quote_units (d # cs)) @ r)
        = cons_fst c (string_chars (quote_units (d # cs) @ r))"
      using string_chars_quote_unit [of c "quote_units (d # cs) @ r"] by simp
    with "3.IH"(2) [OF False] show ?thesis
      unfolding eq by (simp add: cons_fst_def split: option.splits)
  qed
qed

lemma string_chars_quoted:
  "string_chars (quote_units s @ 0x22 # r) = Some (s, r)"
  by (simp add: string_chars_quote_units)

subsection \<open>Objects and arrays\<close>

lemma skip_ws_plain: "\<not> is_json_space c \<Longrightarrow> skip_ws (c # cs) = c # cs"
  by (simp add: skip_ws_def)

lemma plain_chars:
  "\<not> is_json_space 0x22" "\<not> is_json_space 0x2C" "\<not> is_json_space 0x3A"
  "\<not> is_json_space 0x5B" "\<not> is_json_space 0x5D" "\<not> is_json_space 0x7B"
  "\<not> is_json_space 0x7D"
  by (simp_all add: is_json_space_def)

lemma parse_string:
  assumes "0 < m"
  shows "parse_value m (quote s @ r) = Some (JStr s, r)"
proof -
  from assms obtain n where m: "m = Suc n"
    by (cases m) auto
  show ?thesis
    unfolding m by (simp add: quote_def scalar_def string_chars_quoted)
qed

lemma parse_bool:
  assumes "0 < m"
  shows "parse_value m ((if b then js ''true'' else js ''false'') @ r) = Some (JBool b, r)"
proof -
  from assms obtain n where m: "m = Suc n"
    by (cases m) auto
  show ?thesis
    unfolding m by (simp add: scalar_def js_def)
qed

lemma parse_member_more:
  assumes "parse_value n (c # cs @ 0x2C # r) = Some (v, 0x2C # r)" and "\<not> is_json_space c"
  shows "parse_members (Suc n) (member k (c # cs) @ 0x2C # r)
           = cons_fst (k, v) (parse_members n (skip_ws r))"
  using assms
  by (simp add: member_def quote_def string_chars_quoted skip_ws_plain plain_chars)

lemma parse_member_last:
  assumes "parse_value n (c # cs @ 0x7D # r) = Some (v, 0x7D # r)" and "\<not> is_json_space c"
  shows "parse_members (Suc n) (member k (c # cs) @ 0x7D # r) = Some ([(k, v)], r)"
  using assms
  by (simp add: member_def quote_def string_chars_quoted skip_ws_plain plain_chars)

lemma parse_object:
  assumes "parse_members n (member k vt @ r) = Some (ms, r')"
  shows "parse_value (Suc n) (0x7B # member k vt @ r) = Some (object_of ms, r')"
  using assms
  by (simp add: member_def quote_def skip_ws_plain plain_chars)

lemma bool_text_Cons:
  "\<exists>c cs. (if b then js ''true'' else js ''false'') = c # cs \<and> \<not> is_json_space c"
  by (simp add: js_def is_json_space_def)

lemma object_of_task:
  "object_of [(js ''id'', a), (js ''description'', b), (js ''isDone'', c)]
     = JObj [(js ''id'', a), (js ''description'', b), (js ''isDone'', c)]"
  by (simp add: object_of_def put_def is_array_index_def is_digit_def js_def)

lemma object_of_state:
  "object_of [(js ''items'', a), (js ''filter'', b)] = JObj [(js ''items'', a), (js ''filter'', b)]"
  by (simp add: object_of_def put_def is_array_index_def is_digit_def js_def)

lemma object_of_store:
  "object_of [(js ''tasks'', a)] = JObj [(js ''tasks'', a)]"
  by (simp add: object_of_def put_def is_array_index_def is_digit_def js_def)

lemma quote_Cons: "quote s = 0x22 # quote_units s @ [0x22]"
  by (simp add: quote_def)

lemma member_Cons: "member k v @ r = 0x22 # quote_units k @ 0x22 # 0x3A # v @ r"
  by (simp add: member_def quote_def)

lemma skip_ws_member: "skip_ws (member k v @ r) = member k v @ r"
  by (simp add: member_Cons skip_ws_plain plain_chars)

lemma parse_task:
  assumes "5 \<le> m"
  shows "parse_value m (stringify_task t @ r) = Some (task_object t, r)"
proof -
  from assms have "m = Suc (Suc (Suc (Suc (Suc (m - 5)))))"
    by simp
  then obtain n where m: "m = Suc (Suc (Suc (Suc (Suc n))))" ..
  let ?b = "if isDone t then js ''true'' else js ''false''"
  let ?r3 = "member (js ''isDone'') ?b @ 0x7D # r"
  let ?r2 = "member (js ''description'') (quote (description t)) @ 0x2C # ?r3"
  let ?r1 = "member (js ''id'') (quote (id' t)) @ 0x2C # ?r2"
  obtain c cs where b: "?b = c # cs" "\<not> is_json_space c"
    using bool_text_Cons [of "isDone t"] by blast
  have m3: "parse_members (Suc (Suc n)) ?r3 = Some ([(js ''isDone'', JBool (isDone t))], r)"
    unfolding b(1)
    using parse_bool [of "Suc n" "isDone t" "0x7D # r"] b
    by (intro parse_member_last) simp_all
  have "parse_members (Suc (Suc (Suc n))) ?r2
      = cons_fst (js ''description'', JStr (description t))
          (parse_members (Suc (Suc n)) (skip_ws ?r3))"
    unfolding quote_Cons
    using parse_string [of "Suc (Suc n)" "description t" "0x2C # ?r3"]
    by (intro parse_member_more) (simp_all add: quote_Cons plain_chars)
  with m3 have m2: "parse_members (Suc (Suc (Suc n))) ?r2
      = Some ([(js ''description'', JStr (description t)), (js ''isDone'', JBool (isDone t))], r)"
    by (simp add: skip_ws_member cons_fst_def)
  have "parse_members (Suc (Suc (Suc (Suc n)))) ?r1
      = cons_fst (js ''id'', JStr (id' t)) (parse_members (Suc (Suc (Suc n))) (skip_ws ?r2))"
    unfolding quote_Cons
    using parse_string [of "Suc (Suc (Suc n))" "id' t" "0x2C # ?r2"]
    by (intro parse_member_more) (simp_all add: quote_Cons plain_chars)
  with m2 have m1: "parse_members (Suc (Suc (Suc (Suc n)))) ?r1
      = Some ([(js ''id'', JStr (id' t)), (js ''description'', JStr (description t)),
               (js ''isDone'', JBool (isDone t))], r)"
    by (simp add: skip_ws_member cons_fst_def)
  have shape: "stringify_task t @ r = 0x7B # ?r1"
    by (simp add: stringify_task_def)
  show ?thesis
    unfolding m shape using parse_object [OF m1]
    by (simp add: object_of_task task_object_def)
qed

lemma stringify_task_Cons: "\<exists>cs. stringify_task t = 0x7B # cs"
  by (simp add: stringify_task_def)

lemma join_tasks_Cons:
  "ts \<noteq> [] \<Longrightarrow> \<exists>cs. join [0x2C] (map stringify_task ts) = 0x7B # cs"
proof (cases ts)
  case Nil
  then show "ts \<noteq> [] \<Longrightarrow> ?thesis" by simp
next
  case (Cons t ts')
  obtain cs where "stringify_task t = 0x7B # cs"
    using stringify_task_Cons by blast
  with Cons show ?thesis
    by (cases ts') simp_all
qed

lemma length_join_tasks: "length ts \<le> length (join [0x2C] (map stringify_task ts))"
proof (induction ts rule: induct_list012)
  case 1
  show ?case by simp
next
  case (2 t)
  obtain cs where "stringify_task t = 0x7B # cs"
    using stringify_task_Cons by blast
  then show ?case by simp
next
  case (3 t t' ts)
  obtain cs where "stringify_task t = 0x7B # cs"
    using stringify_task_Cons by blast
  with 3 show ?case by simp
qed

lemma parse_elements_tasks:
  assumes "ts \<noteq> []" and "length ts + 5 \<le> m"
  shows "parse_elements m (join [0x2C] (map stringify_task ts) @ 0x5D # r)
           = Some (map task_object ts, r)"
  using assms
proof (induction ts arbitrary: m rule: list_nonempty_induct)
  case (single t)
  then obtain n where m: "m = Suc n" and n: "5 \<le> n"
    by (cases m) auto
  show ?case
    unfolding m using parse_task [OF n, of t "0x5D # r"]
    by (simp add: skip_ws_plain plain_chars)
next
  case (cons t ts)
  from cons.prems obtain n where m: "m = Suc n" and n: "length ts + 5 \<le> n" "5 \<le> n"
    by (cases m) auto
  obtain t' ts' where ts: "ts = t' # ts'"
    using cons.hyps by (cases ts) auto
  obtain cs where cs: "join [0x2C] (map stringify_task ts) = 0x7B # cs"
    using join_tasks_Cons [OF cons.hyps] by blast
  have shape: "join [0x2C] (map stringify_task (t # ts)) @ 0x5D # r
      = stringify_task t @ 0x2C # join [0x2C] (map stringify_task ts) @ 0x5D # r"
    by (simp add: ts)
  have "skip_ws (join [0x2C] (map stringify_task ts) @ 0x5D # r)
      = join [0x2C] (map stringify_task ts) @ 0x5D # r"
    by (simp add: cs skip_ws_plain plain_chars)
  with cons.IH [OF n(1)]
    parse_task [OF n(2), of t "0x2C # join [0x2C] (map stringify_task ts) @ 0x5D # r"]
  show ?case
    unfolding m shape by (simp add: skip_ws_plain plain_chars cons_fst_def)
qed

lemma parse_items:
  assumes "length ts + 6 \<le> m"
  shows "parse_value m (0x5B # join [0x2C] (map stringify_task ts) @ 0x5D # r)
           = Some (JArr (map task_object ts), r)"
proof -
  from assms obtain n where m: "m = Suc n" and n: "length ts + 5 \<le> n"
    by (cases m) auto
  show ?thesis
  proof (cases "ts = []")
    case True
    then show ?thesis
      unfolding m by (simp add: skip_ws_plain plain_chars)
  next
    case False
    obtain cs where cs: "join [0x2C] (map stringify_task ts) = 0x7B # cs"
      using join_tasks_Cons [OF False] by blast
    from parse_elements_tasks [OF False n, of r] show ?thesis
      unfolding m cs by (simp add: skip_ws_plain plain_chars)
  qed
qed

lemma parse_state:
  assumes "length (items st) + 8 \<le> m"
  shows "parse_value m (stringify_tasks st @ r) = Some (state_object st, r)"
proof -
  from assms have "m = Suc (Suc (Suc (m - 3)))" and "length (items st) + 5 \<le> m - 3"
    by simp_all
  then obtain n where m: "m = Suc (Suc (Suc n))" and n: "length (items st) + 5 \<le> n"
    by blast
  let ?arr = "0x5B # join [0x2C] (map stringify_task (items st)) @ [0x5D]"
  let ?r2 = "member (js ''filter'') (quote (filter' st)) @ 0x7D # r"
  let ?r1 = "member (js ''items'') ?arr @ 0x2C # ?r2"
  have m2: "parse_members (Suc n) ?r2 = Some ([(js ''filter'', JStr (filter' st))], r)"
    unfolding quote_Cons
    using parse_string [of n "filter' st" "0x7D # r"] n
    by (intro parse_member_last) (simp_all add: quote_Cons plain_chars)
  have "parse_value (Suc n) (?arr @ 0x2C # ?r2)
      = Some (JArr (map task_object (items st)), 0x2C # ?r2)"
    using parse_items [of "items st" "Suc n" "0x2C # ?r2"] n by simp
  then have "parse_members (Suc (Suc n)) ?r1
      = cons_fst (js ''items'', JArr (map task_object (items st)))
          (parse_members (Suc n) (skip_ws ?r2))"
    by (intro parse_member_more) (simp_all add: plain_chars)
  with m2 have m1: "parse_members (Suc (Suc n)) ?r1
      = Some ([(js ''items'', JArr (map task_object (items st))),
               (js ''filter'', JStr (filter' st))], r)"
    by (simp add: skip_ws_member cons_fst_def)
  have shape: "stringify_tasks st @ r = 0x7B # ?r1"
    by (simp add: stringify_tasks_def)
  show ?thesis
    unfolding m shape using parse_object [OF m1]
    by (simp add: object_of_state state_object_def)
qed

lemma stringify_tasks_Cons: "\<exists>cs. stringify_tasks st = 0x7B # cs"
  by (simp add: stringify_tasks_def)

lemma parse_store:
  assumes "length (items st) + 10 \<le> m"
  shows "parse_value m (JSON_stringify st @ r) = Some (store_object st, r)"
proof -
  from assms have "m = Suc (Suc (m - 2))" and "length (items st) + 8 \<le> m - 2"
    by simp_all
  then obtain n where m: "m = Suc (Suc n)" and n: "length (items st) + 8 \<le> n"
    by blast
  obtain cs where cs: "stringify_tasks st = 0x7B # cs"
    using stringify_tasks_Cons by blast
  have "parse_value n (0x7B # cs @ 0x7D # r) = Some (state_object st, 0x7D # r)"
    using parse_state [OF n, of "0x7D # r"] by (simp add: cs)
  then have "parse_members (Suc n) (member (js ''tasks'') (0x7B # cs) @ 0x7D # r)
      = Some ([(js ''tasks'', state_object st)], r)"
    by (intro parse_member_last) (simp_all add: plain_chars)
  from parse_object [OF this] show ?thesis
    unfolding m by (simp add: JSON_stringify_def cs object_of_store store_object_def)
qed

lemma length_JSON_stringify: "length (items st) + 9 \<le> length (JSON_stringify st)"
  using length_join_tasks [of "items st"]
  by (simp add: JSON_stringify_def stringify_tasks_def member_def quote_def)

lemma JSON_stringify_Cons: "\<exists>cs. JSON_stringify st = 0x7B # cs"
  by (simp add: JSON_stringify_def)

lemma JSON_parse_stringify: "JSON_parse (JSON_stringify st) = Inr (store_object st)"
proof -
  obtain cs where cs: "JSON_stringify st = 0x7B # cs"
    using JSON_stringify_Cons by blast
  have "parse_value (Suc (length (JSON_stringify st))) (JSON_stringify st @ [])
      = Some (store_object st, [])"
    using length_JSON_stringify [of st] by (intro parse_store) simp
  then show ?thesis
    by (simp add: JSON_parse_def skip_ws_plain plain_chars cs) (simp add: skip_ws_def)
qed

section \<open>Properties of the persistence\<close>

lemma get_truthy: "truthy p \<Longrightarrow> \<exists>t. get p k = Inr t"
  by (cases p) simp_all

lemma opt_get_Inr: "\<exists>w. opt_get v k = Inr w"
  by (cases v) (simp_all add: opt_get_def)

lemma initialState_total: "\<exists>v. initialState p = Inr v"
proof (cases "truthy p")
  case True
  then obtain t where t: "get p (js ''tasks'') = Inr t"
    using get_truthy by blast
  obtain i f where "opt_get t (js ''items'') = Inr i" "opt_get t (js ''filter'') = Inr f"
    using opt_get_Inr by blast
  with True t show ?thesis
    by (simp add: initialState_def js_and_def js_or_def then_get_def)
next
  case False
  then show ?thesis
    by (simp add: initialState_def js_and_def js_or_def)
qed

lemma initialState_undefined: "initialState JUndefined = Inr (state_object default_state)"
  by (simp add: initialState_def js_and_def js_or_def state_object_def default_state_def)

lemma store_start_undefined: "store_start JUndefined = Inr (store_object default_state)"
  by (simp add: store_start_def initialState_undefined store_object_def)

lemma initialState_store_object:
  "initialState (store_object st)
     = Inr (JObj [(js ''items'', JArr (map task_object (items st))),
                  (js ''filter'', if filter' st = [] then JStr (js ''all'') else JStr (filter' st))])"
  by (simp add: initialState_def js_and_def js_or_def then_get_def opt_get_def store_object_def
      state_object_def js_def)

lemma store_start_store_object: "store_start (store_object st) = Inr (store_object st)"
  by (simp add: store_start_def initialState_store_object)
    (simp add: store_object_def state_object_def)

lemma task_object_inject: "task_object t = task_object t' \<longleftrightarrow> t = t'"
  by (cases t; cases t') (auto simp: task_object_def)

lemma map_task_object_inject: "map task_object ts = map task_object ts' \<longleftrightarrow> ts = ts'"
  by (simp add: inj_map_eq_map inj_on_def task_object_inject)

lemma store_object_inject: "store_object st = store_object st' \<longleftrightarrow> st = st'"
  by (cases st; cases st') (auto simp: store_object_def state_object_def map_task_object_inject)

lemma persisted_written:
  "persisted (subscribe_listener st (Available m)) = store_object st"
proof -
  obtain cs where "JSON_stringify st = 0x7B # cs"
    using JSON_stringify_Cons by blast
  then have "JSON_stringify st \<noteq> []"
    by simp
  then show ?thesis
    by (simp add: persisted_def subscribe_listener_def JSON_parse_stringify)
qed

text \<open>
  A preloaded state that has a \<open>tasks\<close> property is the state the store starts
  from, whatever \<open>initialState\<close> is: for the stored text
  \<open>{"tasks":{"filter":"done"}}\<close> the slice state of the store has no \<open>items\<close>.
\<close>

lemma store_start_preloaded:
  "store_start (JObj [(js ''tasks'', JObj [(js ''filter'', JStr (js ''done''))])])
     = Inr (JObj [(js ''tasks'', JObj [(js ''filter'', JStr (js ''done''))])])"
  by (simp add: store_start_def initialState_def js_and_def js_or_def then_get_def opt_get_def)

text \<open>
  C9: for every state, the text that the listener writes parses back to the
  object of that state: the same items in the same order, each with the same id,
  description and \<open>isDone\<close>, and the same filter. Read at the next start,
  \<open>persisted\<close> is that object, and the store starts from it. The object
  determines the state.
\<close>

theorem persist_roundtrip:
  "JSON_parse (JSON_stringify st) = Inr (store_object st) \<and>
   persisted (subscribe_listener st (Available m)) = store_object st \<and>
   store_start (persisted (subscribe_listener st (Available m))) = Inr (store_object st) \<and>
   (store_object st' = store_object st \<longleftrightarrow> st' = st)"
  by (simp add: JSON_parse_stringify persisted_written store_start_store_object
      store_object_inject)

text \<open>
  C8: when \<open>getItem\<close> throws, when the key is absent, or when the stored text
  does not parse, \<open>persisted\<close> is \<open>undefined\<close>, the initial state of the slice is
  \<open>{ items: [], filter: "all" }\<close>, and the store starts in that state; nothing
  throws.
\<close>

theorem startup_falls_back:
  assumes "(\<exists>e. getItem ls storage_key = Inl e) \<or> getItem ls storage_key = Inr None \<or>
           (\<exists>raw e. getItem ls storage_key = Inr (Some raw) \<and> JSON_parse raw = Inl e)"
  shows "persisted ls = JUndefined \<and>
         initialState (persisted ls) = Inr (state_object default_state) \<and>
         store_start (persisted ls) = Inr (store_object default_state)"
proof -
  from assms have "persisted ls = JUndefined"
    by (auto simp: persisted_def)
  then show ?thesis
    by (simp add: initialState_undefined store_start_undefined)
qed

theorem startup_falls_back_witness:
  "(\<exists>e. getItem Denied storage_key = Inl e) \<and>
   store_start (persisted Denied) = Inr (store_object default_state) \<and>
   getItem (Available Map.empty) storage_key = Inr None \<and>
   store_start (persisted (Available Map.empty)) = Inr (store_object default_state) \<and>
   getItem (stored (js ''{not json'')) storage_key = Inr (Some (js ''{not json'')) \<and>
   JSON_parse (js ''{not json'') = Inl SyntaxError \<and>
   store_start (persisted (stored (js ''{not json''))) = Inr (store_object default_state)"
proof -
  have bad: "JSON_parse (js ''{not json'') = Inl SyntaxError"
    by code_simp
  have g: "getItem (stored (js ''{not json'')) storage_key = Inr (Some (js ''{not json''))"
    by (simp add: stored_def)
  have h1: "\<exists>e. getItem Denied storage_key = Inl e"
    by simp
  have h2: "getItem (Available Map.empty) storage_key = Inr None"
    by simp
  from h1 startup_falls_back [of Denied]
  have w1: "store_start (persisted Denied) = Inr (store_object default_state)"
    by blast
  from h2 startup_falls_back [of "Available Map.empty"]
  have w2: "store_start (persisted (Available Map.empty)) = Inr (store_object default_state)"
    by blast
  from bad g startup_falls_back [of "stored (js ''{not json'')"]
  have w3: "store_start (persisted (stored (js ''{not json''))) = Inr (store_object default_state)"
    by blast
  from bad g h1 h2 w1 w2 w3 show ?thesis
    by blast
qed

text \<open>
  C10, as stated, fails for a filter that is present and falsy: with the stored
  text \<open>{"tasks":{"filter":""}}\<close> the blob has a \<open>tasks.filter\<close>, the empty
  string, and the initial filter is \<open>"all"\<close>, not the value of the blob.
\<close>

theorem initialState_falsy_filter:
  "JSON_parse blob_empty_filter = Inr (JObj [(js ''tasks'', JObj [(js ''filter'', JStr [])])]) \<and>
   persisted (stored blob_empty_filter) = JObj [(js ''tasks'', JObj [(js ''filter'', JStr [])])] \<and>
   initialState (persisted (stored blob_empty_filter))
     = Inr (JObj [(js ''items'', JArr []), (js ''filter'', JStr (js ''all''))])"
proof -
  have p: "JSON_parse blob_empty_filter = Inr (JObj [(js ''tasks'', JObj [(js ''filter'', JStr [])])])"
    by code_simp
  have ne: "blob_empty_filter \<noteq> []"
    by (simp add: blob_empty_filter_def)
  have q: "persisted (stored blob_empty_filter) = JObj [(js ''tasks'', JObj [(js ''filter'', JStr [])])]"
    using ne by (simp add: persisted_def stored_def p)
  have "initialState (JObj [(js ''tasks'', JObj [(js ''filter'', JStr [])])])
     = Inr (JObj [(js ''items'', JArr []), (js ''filter'', JStr (js ''all''))])"
    by (simp add: initialState_def js_and_def js_or_def then_get_def opt_get_def js_def)
  with p q show ?thesis by simp
qed

text \<open>
  C10, amended: \<open>initialState\<close> falls back per field. For a blob that parses to
  an object whose \<open>tasks\<close> is an object, \<open>items\<close> is the \<open>tasks.items\<close> of the blob
  when that is truthy and \<open>[]\<close> when it is missing or falsy; independently,
  \<open>filter\<close> is the \<open>tasks.filter\<close> of the blob when that is truthy and \<open>"all"\<close>
  when it is missing or falsy. So a blob with a filter and no items gives \<open>[]\<close>
  with that filter, and a blob with items and no filter gives those items with
  \<open>"all"\<close>.
\<close>

theorem initialState_per_field:
  assumes "map_of ps (js ''tasks'') = Some (JObj ts)"
  shows "initialState (JObj ps) =
    Inr (JObj [(js ''items'', case map_of ts (js ''items'') of
                               None \<Rightarrow> JArr []
                             | Some i \<Rightarrow> if truthy i then i else JArr []),
              (js ''filter'', case map_of ts (js ''filter'') of
                               None \<Rightarrow> JStr (js ''all'')
                             | Some f \<Rightarrow> if truthy f then f else JStr (js ''all''))])"
  using assms
  by (simp add: initialState_def js_and_def js_or_def then_get_def opt_get_def split: option.splits)

theorem initialState_per_field_witness:
  "JSON_parse blob_filter_only = Inr (JObj [(js ''tasks'', JObj [(js ''filter'', JStr (js ''done''))])]) \<and>
   map_of [(js ''tasks'', JObj [(js ''filter'', JStr (js ''done''))])] (js ''tasks'')
     = Some (JObj [(js ''filter'', JStr (js ''done''))]) \<and>
   initialState (JObj [(js ''tasks'', JObj [(js ''filter'', JStr (js ''done''))])])
     = Inr (JObj [(js ''items'', JArr []), (js ''filter'', JStr (js ''done''))]) \<and>
   JSON_parse blob_items_only
     = Inr (JObj [(js ''tasks'', JObj [(js ''items'', JArr [task_object milk_task])])]) \<and>
   map_of [(js ''tasks'', JObj [(js ''items'', JArr [task_object milk_task])])] (js ''tasks'')
     = Some (JObj [(js ''items'', JArr [task_object milk_task])]) \<and>
   initialState (JObj [(js ''tasks'', JObj [(js ''items'', JArr [task_object milk_task])])])
     = Inr (JObj [(js ''items'', JArr [task_object milk_task]), (js ''filter'', JStr (js ''all''))])"
proof -
  have p1: "JSON_parse blob_filter_only
      = Inr (JObj [(js ''tasks'', JObj [(js ''filter'', JStr (js ''done''))])])"
    by code_simp
  have p2: "JSON_parse blob_items_only
      = Inr (JObj [(js ''tasks'', JObj [(js ''items'', JArr [task_object milk_task])])])"
    by code_simp
  have k: "js ''filter'' \<noteq> js ''items''" "js ''done'' \<noteq> []"
    by (simp_all add: js_def)
  from p1 p2 k
    initialState_per_field [of "[(js ''tasks'', JObj [(js ''filter'', JStr (js ''done''))])]"
      "[(js ''filter'', JStr (js ''done''))]"]
    initialState_per_field [of "[(js ''tasks'', JObj [(js ''items'', JArr [task_object milk_task])])]"
      "[(js ''items'', JArr [task_object milk_task])]"]
  show ?thesis by simp
qed

end
